theory Spec2Isabelle
  imports Complex_Main "HOL-Library.Signed_Division"
begin

section \<open>Floating-point values\<close>

text \<open>
  The analyzer computes in \<^verbatim>\<open>float\<close> and \<^verbatim>\<open>double\<close>. Finite values are idealised as
  reals (no rounding, no overflow); the special values of IEEE arithmetic are kept,
  because the code divides by counts that may be zero: \<open>0/0\<close> is NaN and \<open>x/0\<close> is an
  infinity there, where HOL's division on the reals would return \<open>0\<close>.
\<close>

datatype flt = Fin real | PInf | MInf | NaN

fun fadd :: "flt \<Rightarrow> flt \<Rightarrow> flt" where
  "fadd (Fin a) (Fin b) = Fin (a + b)"
| "fadd (Fin a) PInf = PInf"
| "fadd (Fin a) MInf = MInf"
| "fadd PInf (Fin b) = PInf"
| "fadd PInf PInf = PInf"
| "fadd MInf (Fin b) = MInf"
| "fadd MInf MInf = MInf"
| "fadd PInf MInf = NaN"
| "fadd MInf PInf = NaN"
| "fadd NaN y = NaN"
| "fadd x NaN = NaN"

text \<open>
  Division of a floating-point value by a count converted to floating point
  (\<^verbatim>\<open>x / double(n)\<close>, \<^verbatim>\<open>x / float(trial)\<close>, \<^verbatim>\<open>x / _pts.size()\<close>): the divisor is
  never negative, and is \<open>+0\<close> when the count is zero.
\<close>

fun fdiv_count :: "flt \<Rightarrow> nat \<Rightarrow> flt" where
  "fdiv_count (Fin a) n =
     (if n = 0 then (if a = 0 then NaN else if 0 < a then PInf else MInf)
      else Fin (a / real n))"
| "fdiv_count PInf n = PInf"
| "fdiv_count MInf n = MInf"
| "fdiv_count NaN n = NaN"

definition is_finite :: "flt \<Rightarrow> bool" where
  "is_finite v = (case v of Fin a \<Rightarrow> True | _ \<Rightarrow> False)"

section \<open>The analyzer\<close>

datatype point = Point (px: real) (py: real)

text \<open>
  The fields of \<^verbatim>\<open>FourierAnalyzer\<close> that the analysis reads and writes. The sampler is
  kept outside the record (it is an external object with a state of its own).
\<close>

record analyzer =
  nSamples :: "int list"
  nTrials :: int
  trialStepOut :: int
  frequencyStep :: real
  xRes :: nat
  yRes :: nat
  pts :: "point list"
  powerSpectrum :: "flt list"
  complexSpectrum :: "complex list"

text \<open>
  The constructor. The four configuration values are what the command-line parser
  (not in the sources) returns for \<^verbatim>\<open>NSampStr\<close>, \<^verbatim>\<open>nTrialsStr\<close>, \<^verbatim>\<open>--tstep\<close> and
  \<^verbatim>\<open>--wstep\<close>; both arrays are value-initialised.
\<close>

definition FourierAnalyzer :: "int list \<Rightarrow> int \<Rightarrow> int \<Rightarrow> real \<Rightarrow> analyzer" where
  "FourierAnalyzer ns nt ts ws =
     \<lparr>nSamples = ns, nTrials = nt, trialStepOut = ts, frequencyStep = ws,
      xRes = 512, yRes = 512, pts = [],
      powerSpectrum = replicate (512 * 512) (Fin 0),
      complexSpectrum = replicate (512 * 512) 0\<rparr>"

text \<open>Both arrays have one cell per grid cell.\<close>

definition wf :: "analyzer \<Rightarrow> bool" where
  "wf st = (length (powerSpectrum st) = xRes st * yRes st
            \<and> length (complexSpectrum st) = xRes st * yRes st)"

subsection \<open>Spectral transform\<close>

text \<open>Modelled from the spec: the constant \<^verbatim>\<open>twopi\<close> of common.h, which is not in the sources.\<close>

definition twopi :: real where
  "twopi = 2 * pi"

text \<open>The loop over the points of one cell: \<open>fx\<close> and \<open>fy\<close> start at zero.\<close>

definition fourier_sum :: "point list \<Rightarrow> real \<Rightarrow> real \<Rightarrow> real \<times> real" where
  "fourier_sum ps wx wy =
     fold (\<lambda>p (fx, fy).
             let e = - twopi * (wx * px p + wy * py p)
             in (fx + cos e, fy + sin e)) ps (0, 0)"

text \<open>
  The parallel loop visits every cell of the blocked range once and cells do not depend
  on each other, so it is modelled by the sequential nested loop. The range of the rows
  is \<open>[0, xRes)\<close> and the range of the columns is \<open>[0, yRes)\<close>, as the source has them;
  on a square grid every index \<open>row * xRes + col\<close> is in range, and the statements about
  the transform are for square grids.
\<close>

definition continuous_fourier_spectrum :: "analyzer \<Rightarrow> analyzer" where
  "continuous_fourier_spectrum st =
     (let half_xRes = int (xRes st div 2); half_yRes = int (yRes st div 2)
      in st\<lparr>complexSpectrum :=
           fold (\<lambda>row. fold (\<lambda>col cs.
                   let wx = real_of_int (int col - half_xRes) * frequencyStep st;
                       wy = real_of_int (int row - half_yRes) * frequencyStep st;
                       (fx, fy) = fourier_sum (pts st) wx wy
                   in cs[row * xRes st + col := Complex fx fy]) [0..<yRes st])
             [0..<xRes st] (complexSpectrum st)\<rparr>)"

subsection \<open>Power reduction\<close>

definition power_fourier_spectrum :: "analyzer \<Rightarrow> analyzer" where
  "power_fourier_spectrum st =
     st\<lparr>powerSpectrum :=
        fold (\<lambda>r. fold (\<lambda>c ps.
                let re = Re (complexSpectrum st ! (r * xRes st + c));
                    im = Im (complexSpectrum st ! (r * xRes st + c));
                    powerVal = fdiv_count (Fin (re * re + im * im)) (length (pts st))
                in ps[r * xRes st + c := powerVal]) [0..<xRes st])
          [0..<yRes st] (powerSpectrum st)\<rparr>"

subsection \<open>Radial reduction\<close>

datatype error = Exit int | DivisionByZero

text \<open>
  The distance of a cell from the centre. Its argument is a sum of two squares of small
  integers, for which the rounded square root of the source and the real one have the
  same integer part and compare alike with an integer.
\<close>

definition cell_distance :: "nat \<Rightarrow> nat \<Rightarrow> nat \<Rightarrow> real" where
  "cell_distance halfwidth r c =
     (let dx = real_of_int (int halfwidth - int c);
          dy = real_of_int (int halfwidth - int r)
      in sqrt (dx * dx + dy * dy))"

text \<open>The bin of a cell: the distance converted to \<^verbatim>\<open>int\<close>.\<close>

definition cell_index :: "nat \<Rightarrow> nat \<Rightarrow> nat \<Rightarrow> nat" where
  "cell_index halfwidth r c = nat \<lfloor>cell_distance halfwidth r c\<rfloor>"

text \<open>The test of the source that skips a cell: it compares the distance itself.\<close>

definition cell_skipped :: "nat \<Rightarrow> nat \<Rightarrow> nat \<Rightarrow> bool" where
  "cell_skipped halfwidth r c =
     (cell_distance halfwidth r c > real_of_int (int halfwidth - 1))"

text \<open>The first loop: sums and counts per bin, both arrays value-initialised.\<close>

definition radial_bins :: "analyzer \<Rightarrow> flt list \<times> nat list" where
  "radial_bins st =
     (let halfwidth = xRes st div 2
      in fold (\<lambda>r. fold (\<lambda>c (radialHistogram, histoCounter).
                 let imgIndex = r * xRes st + c;
                     index = cell_index halfwidth r c
                 in if cell_skipped halfwidth r c then (radialHistogram, histoCounter)
                    else (radialHistogram[index :=
                            fadd (radialHistogram ! index) (powerSpectrum st ! imgIndex)],
                          histoCounter[index := histoCounter ! index + 1]))
                 [0..<xRes st])
           [0..<yRes st] (replicate halfwidth (Fin 0), replicate halfwidth 0))"

text \<open>The second loop: every bin is divided by its count.\<close>

definition radial_mean :: "analyzer \<Rightarrow> flt list" where
  "radial_mean st =
     (let halfwidth = xRes st div 2;
          (radialHistogram, histoCounter) = radial_bins st
      in fold (\<lambda>i h. h[i := fdiv_count (h ! i) (histoCounter ! i)])
           [0..<halfwidth] radialHistogram)"

text \<open>
  The function returns the rows written to the file (bin and mean power, without the five
  outer bins), or the exit status when the grid is not square.
\<close>

definition compute_radial_mean_powerspectrum :: "analyzer \<Rightarrow> error + (nat \<times> flt) list" where
  "compute_radial_mean_powerspectrum st =
     (if xRes st \<noteq> yRes st then Inl (Exit (- 2))
      else Inr (map (\<lambda>i. (i, radial_mean st ! i)) [0..<xRes st div 2 - 5]))"

subsection \<open>The analysis loop\<close>

text \<open>What a run writes: an image and a radial profile, tagged by sample count and trial.\<close>

datatype event = WriteExr int int "flt list" | WriteRadial int int "(nat \<times> flt) list"

record 's run_state =
  self :: analyzer
  sampler :: 's
  powerAccum :: "flt list"
  written :: "event list"
  halted :: "error option"

definition clear_power :: "analyzer \<Rightarrow> analyzer" where
  "clear_power st =
     st\<lparr>powerSpectrum :=
        fold (\<lambda>i ps. ps[i := Fin 0]) [0..<xRes st * yRes st] (powerSpectrum st)\<rparr>"

definition accumulate :: "analyzer \<Rightarrow> flt list \<Rightarrow> flt list" where
  "accumulate st acc =
     fold (\<lambda>r. fold (\<lambda>c pa.
             let index = r * xRes st + c
             in pa[index := fadd (pa ! index) (powerSpectrum st ! index)]) [0..<xRes st])
       [0..<yRes st] acc"

definition mean_power :: "flt list \<Rightarrow> int \<Rightarrow> analyzer \<Rightarrow> analyzer" where
  "mean_power acc trial st =
     st\<lparr>powerSpectrum :=
        fold (\<lambda>r. fold (\<lambda>c ps.
                let index = r * xRes st + c
                in ps[index := fdiv_count (acc ! index) (nat trial)]) [0..<xRes st])
          [0..<yRes st] (powerSpectrum st)\<rparr>"

text \<open>
  The body of the snapshot branch: the mean goes to the power spectrum, the image is
  written, then the radial profile, unless radial reduction exits.
\<close>

definition snapshot :: "int \<Rightarrow> int \<Rightarrow> 's run_state \<Rightarrow> 's run_state" where
  "snapshot n trial rs =
     (let st = mean_power (powerAccum rs) trial (self rs);
          out = written rs @ [WriteExr n trial (powerSpectrum st)]
      in case compute_radial_mean_powerspectrum st of
           Inl e \<Rightarrow> rs\<lparr>self := st, written := out, halted := Some e\<rparr>
         | Inr rows \<Rightarrow> rs\<lparr>self := st, written := out @ [WriteRadial n trial rows]\<rparr>)"

text \<open>
  One trial. The sampler is a parameter: a function from its state and the sample count
  to the points and its next state. The remainder by a zero step is undefined in C++;
  it is modelled as a halt of the run. Once the run has halted nothing more happens.
\<close>

definition run_trial ::
  "('s \<Rightarrow> int \<Rightarrow> point list \<times> 's) \<Rightarrow> int \<Rightarrow> int \<Rightarrow> 's run_state \<Rightarrow> 's run_state" where
  "run_trial Sample n trial rs =
     (if halted rs \<noteq> None then rs
      else
        let (ps, s) = Sample (sampler rs) n;
            st = power_fourier_spectrum
                   (continuous_fourier_spectrum (clear_power ((self rs)\<lparr>pts := ps\<rparr>)));
            rs1 = rs\<lparr>self := st, sampler := s, powerAccum := accumulate st (powerAccum rs)\<rparr>
        in if trial = 1 then snapshot n trial rs1
           else if trialStepOut st = 0 then rs1\<lparr>halted := Some DivisionByZero\<rparr>
           else if trial smod trialStepOut st = 0 then snapshot n trial rs1
           else rs1)"

text \<open>The loop over the trials of one sample count, and the loop over the sample counts.\<close>

definition run_trials ::
  "('s \<Rightarrow> int \<Rightarrow> point list \<times> 's) \<Rightarrow> int \<Rightarrow> 's run_state \<Rightarrow> 's run_state" where
  "run_trials Sample n rs = fold (run_trial Sample n) [1..nTrials (self rs)] rs"

definition run_sample_counts ::
  "('s \<Rightarrow> int \<Rightarrow> point list \<times> 's) \<Rightarrow> int list \<Rightarrow> 's run_state \<Rightarrow> 's run_state" where
  "run_sample_counts Sample ns rs = fold (run_trials Sample) ns rs"

text \<open>The accumulator is allocated, value-initialised, once, before both loops.\<close>

definition start :: "'s \<Rightarrow> analyzer \<Rightarrow> 's run_state" where
  "start s st =
     \<lparr>self = st, sampler = s, powerAccum = replicate (xRes st * yRes st) (Fin 0),
      written = [], halted = None\<rparr>"

definition RunAnalysis ::
  "('s \<Rightarrow> int \<Rightarrow> point list \<times> 's) \<Rightarrow> 's \<Rightarrow> analyzer \<Rightarrow> 's run_state" where
  "RunAnalysis Sample s st = run_sample_counts Sample (nSamples st) (start s st)"

text \<open>The position of cell \<open>(r, c)\<close> in an array of rows of width \<open>X\<close>.\<close>

definition cell_at :: "nat \<Rightarrow> nat \<times> nat \<Rightarrow> nat" where
  "cell_at X = (\<lambda>(r, c). r * X + c)"

section \<open>Analyzers on small grids\<close>

text \<open>
  The state that the constructor builds, for a grid of any size: the member functions
  read the resolution from the fields, so they can be run on a small grid.
\<close>

definition analyzer_of_size :: "nat \<Rightarrow> nat \<Rightarrow> int list \<Rightarrow> int \<Rightarrow> int \<Rightarrow> real \<Rightarrow> analyzer" where
  "analyzer_of_size X Y ns nt ts ws =
     \<lparr>nSamples = ns, nTrials = nt, trialStepOut = ts, frequencyStep = ws,
      xRes = X, yRes = Y, pts = [],
      powerSpectrum = replicate (X * Y) (Fin 0),
      complexSpectrum = replicate (X * Y) 0\<rparr>"

text \<open>Cell \<open>(r, c)\<close> contributes to bin \<open>i\<close>: the loop does not skip it and its index is \<open>i\<close>.\<close>

definition in_bin :: "nat \<Rightarrow> nat \<Rightarrow> nat \<times> nat \<Rightarrow> bool" where
  "in_bin halfwidth i = (\<lambda>(r, c). \<not> cell_skipped halfwidth r c \<and> cell_index halfwidth r c = i)"

text \<open>The body of the first loop of radial reduction, for one cell.\<close>

definition bin_step ::
  "nat \<Rightarrow> nat \<Rightarrow> flt list \<Rightarrow> nat \<times> nat \<Rightarrow> flt list \<times> nat list \<Rightarrow> flt list \<times> nat list" where
  "bin_step h X ps = (\<lambda>(r, c) (H, C).
     if cell_skipped h r c then (H, C)
     else (H[cell_index h r c := fadd (H ! cell_index h r c) (ps ! (r * X + c))],
           C[cell_index h r c := C ! cell_index h r c + 1]))"

section \<open>Reading a run\<close>

text \<open>The spectrum of one trial: lines 155 to 164 of the loop, for the points \<open>ps\<close>.\<close>

definition trial_spectrum :: "analyzer \<Rightarrow> point list \<Rightarrow> analyzer" where
  "trial_spectrum st ps =
     power_fourier_spectrum (continuous_fourier_spectrum (clear_power (st\<lparr>pts := ps\<rparr>)))"

text \<open>What an event is (an image or a radial profile) and its sample count and trial.\<close>

datatype kind = Exr | Radial

fun event_key :: "event \<Rightarrow> kind \<times> int \<times> int" where
  "event_key (WriteExr n trial img) = (Exr, n, trial)"
| "event_key (WriteRadial n trial rows) = (Radial, n, trial)"

fun image_of :: "event \<Rightarrow> flt list" where
  "image_of (WriteExr n trial img) = img"
| "image_of (WriteRadial n trial rows) = []"

text \<open>A sampler that puts every point at the origin.\<close>

definition origin_sampler :: "unit \<Rightarrow> int \<Rightarrow> point list \<times> unit" where
  "origin_sampler s n = (replicate (nat n) (Point 0 0), s)"

text \<open>
  The state of a run that goes on: it has not halted, its grid is square, and the
  configuration is the given one.
\<close>

definition going :: "nat \<Rightarrow> int \<Rightarrow> int \<Rightarrow> 's run_state \<Rightarrow> bool" where
  "going R ts nt rs =
     (halted rs = None \<and> xRes (self rs) = R \<and> yRes (self rs) = R
      \<and> trialStepOut (self rs) = ts \<and> nTrials (self rs) = nt)"

text \<open>The snapshots due at the trials \<open>trs\<close> of sample count \<open>n\<close>, for the step \<open>ts\<close>.\<close>

definition due :: "int \<Rightarrow> int \<Rightarrow> int list \<Rightarrow> (kind \<times> int \<times> int) list" where
  "due ts n trs =
     concat (map (\<lambda>t. [(Exr, n, t), (Radial, n, t)]) (filter (\<lambda>t. t = 1 \<or> ts dvd t) trs))"

text \<open>
  A configuration with the sample counts 1 and 2, one trial each, and the state of its
  run when the loop reaches the second sample count.
\<close>

definition two_counts :: analyzer where
  "two_counts = FourierAnalyzer [1, 2] 1 1 1"

definition after_first_count :: "unit run_state" where
  "after_first_count = run_sample_counts origin_sampler [1] (start () two_counts)"

section \<open>Loops that write one cell per step\<close>

lemma fold_nested:
  "fold (\<lambda>r. fold (f r) cs) rs s = fold (\<lambda>(r, c). f r c) (List.product rs cs) s"
  by (induction rs arbitrary: s) (simp_all add: fold_map comp_def)

lemma length_fold_update:
  "length (fold (\<lambda>c xs. xs[idx c := g c xs]) cs xs) = length xs"
  by (induction cs arbitrary: xs) simp_all

lemma fold_update_other:
  "k \<notin> idx ` set cs \<Longrightarrow> fold (\<lambda>c xs. xs[idx c := g c xs]) cs xs ! k = xs ! k"
  by (induction cs arbitrary: xs) simp_all

lemma fold_update_nth:
  assumes "distinct (map idx cs)" and "c \<in> set cs" and "idx c < length xs"
  shows "fold (\<lambda>c xs. xs[idx c := v c (xs ! idx c)]) cs xs ! idx c = v c (xs ! idx c)"
  using assms
proof (induction cs arbitrary: xs)
  case Nil
  then show ?case by simp
next
  case (Cons a cs)
  show ?case
  proof (cases "c = a")
    case True
    have "idx a \<notin> idx ` set cs" using Cons.prems(1) by simp
    then show ?thesis using True Cons.prems(3)
      by (simp add: fold_update_other [where g = "\<lambda>c xs. v c (xs ! idx c)"])
  next
    case False
    then have mem: "c \<in> set cs" using Cons.prems(2) by simp
    have "idx c \<in> idx ` set cs" using mem by simp
    then have ne: "idx c \<noteq> idx a" using Cons.prems(1) by auto
    have "fold (\<lambda>c xs. xs[idx c := v c (xs ! idx c)]) cs (xs[idx a := v a (xs ! idx a)]) ! idx c
          = v c (xs[idx a := v a (xs ! idx a)] ! idx c)"
      using Cons.prems(1,3) mem by (intro Cons.IH) simp_all
    then show ?thesis using ne by simp
  qed
qed

lemma cell_at_inj: "inj_on (cell_at X) ({0..<Y} \<times> {0..<X})"
proof (rule inj_onI, clarify)
  fix r c r' c'
  assume c: "c \<in> {0..<X}" and c': "c' \<in> {0..<X}" and eq: "cell_at X (r, c) = cell_at X (r', c')"
  have e: "r * X + c = r' * X + c'" using eq by (simp add: cell_at_def)
  have "(r * X + c) div X = r" "(r' * X + c') div X = r'" using c c' by simp_all
  then have "r = r'" using e by simp
  then show "r = r' \<and> c = c'" using e by simp
qed

lemma distinct_cells: "distinct (map (cell_at X) (List.product [0..<Y] [0..<X]))"
  by (simp add: distinct_map distinct_product cell_at_inj)

lemma cell_at_bound: "r < Y \<Longrightarrow> c < X \<Longrightarrow> r * X + c < X * (Y::nat)"
proof -
  assume r: "r < Y" and c: "c < X"
  have "r * X + c < r * X + X" using c by simp
  also have "\<dots> = Suc r * X" by simp
  also have "\<dots> \<le> Y * X" using r by (intro mult_le_mono1) simp
  finally show ?thesis by (simp add: mult.commute)
qed

lemma length_grid_update:
  "length (fold (\<lambda>r. fold (\<lambda>c xs. xs[r * X + c := g r c xs]) cs) rs xs) = length xs"
proof -
  have "fold (\<lambda>r. fold (\<lambda>c xs. xs[r * X + c := g r c xs]) cs) rs xs
        = fold (\<lambda>p xs. xs[cell_at X p := (\<lambda>(r, c). g r c) p xs]) (List.product rs cs) xs"
    by (simp add: fold_nested cell_at_def split_def)
  then show ?thesis by (simp only: length_fold_update)
qed

lemma grid_update_nth:
  assumes "r < Y" and "c < X" and "length xs = X * Y"
  shows "fold (\<lambda>r. fold (\<lambda>c xs. xs[r * X + c := v r c (xs ! (r * X + c))]) [0..<X]) [0..<Y] xs
           ! (r * X + c) = v r c (xs ! (r * X + c))"
proof -
  let ?cs = "List.product [0..<Y] [0..<X]"
  let ?w = "\<lambda>p. (\<lambda>(r, c). v r c) p"
  have eq: "fold (\<lambda>r. fold (\<lambda>c xs. xs[r * X + c := v r c (xs ! (r * X + c))]) [0..<X]) [0..<Y] xs
        = fold (\<lambda>p xs. xs[cell_at X p := ?w p (xs ! cell_at X p)]) ?cs xs"
    by (simp add: fold_nested cell_at_def split_def)
  have mem: "(r, c) \<in> set ?cs" using assms by simp
  have bound: "cell_at X (r, c) < length xs"
    using assms by (simp add: cell_at_def cell_at_bound)
  have "fold (\<lambda>p xs. xs[cell_at X p := ?w p (xs ! cell_at X p)]) ?cs xs ! cell_at X (r, c)
        = ?w (r, c) (xs ! cell_at X (r, c))"
    using distinct_cells mem bound by (rule fold_update_nth)
  then show ?thesis by (simp add: eq cell_at_def)
qed

lemma grid_update_flat:
  assumes "i < X * Y" and "length xs = X * Y"
  shows "fold (\<lambda>r. fold (\<lambda>c xs. xs[r * X + c := v r c (xs ! (r * X + c))]) [0..<X]) [0..<Y] xs ! i
           = v (i div X) (i mod X) (xs ! i)"
proof -
  have X: "0 < X" using assms(1) by (cases X) simp_all
  have r: "i div X < Y" using assms(1) by (simp add: less_mult_imp_div_less mult.commute)
  have c: "i mod X < X" using X by simp
  have i: "i div X * X + i mod X = i" by simp
  show ?thesis using grid_update_nth [OF r c assms(2), of v] by (simp only: i)
qed

section \<open>The steps of one trial, cell by cell\<close>

lemma fourier_sum_fold:
  "fold (\<lambda>p (fx, fy). let e = - twopi * (wx * px p + wy * py p)
                       in (fx + cos e, fy + sin e)) ps (a, b)
   = (a + (\<Sum>p\<leftarrow>ps. cos (- twopi * (wx * px p + wy * py p))),
      b + (\<Sum>p\<leftarrow>ps. sin (- twopi * (wx * px p + wy * py p))))"
  by (induction ps arbitrary: a b) (simp_all add: Let_def algebra_simps)

lemma fourier_sum_eq:
  "fourier_sum ps wx wy
   = ((\<Sum>p\<leftarrow>ps. cos (- twopi * (wx * px p + wy * py p))),
      (\<Sum>p\<leftarrow>ps. sin (- twopi * (wx * px p + wy * py p))))"
  using fourier_sum_fold [of wx wy ps 0 0] by (simp add: fourier_sum_def)

lemma continuous_fourier_spectrum_fields [simp]:
  "xRes (continuous_fourier_spectrum st) = xRes st"
  "yRes (continuous_fourier_spectrum st) = yRes st"
  "pts (continuous_fourier_spectrum st) = pts st"
  "powerSpectrum (continuous_fourier_spectrum st) = powerSpectrum st"
  "frequencyStep (continuous_fourier_spectrum st) = frequencyStep st"
  "nTrials (continuous_fourier_spectrum st) = nTrials st"
  "trialStepOut (continuous_fourier_spectrum st) = trialStepOut st"
  "nSamples (continuous_fourier_spectrum st) = nSamples st"
  by (simp_all add: continuous_fourier_spectrum_def Let_def)

lemma continuous_fourier_spectrum_length [simp]:
  "length (complexSpectrum (continuous_fourier_spectrum st)) = length (complexSpectrum st)"
  by (simp add: continuous_fourier_spectrum_def Let_def split_def length_grid_update)

lemma continuous_fourier_spectrum_nth:
  assumes "xRes st = R" and "yRes st = R" and "length (complexSpectrum st) = R * R"
    and "row < R" and "col < R"
  shows "complexSpectrum (continuous_fourier_spectrum st) ! (row * R + col)
         = Complex
             (fst (fourier_sum (pts st)
                    (real_of_int (int col - int (R div 2)) * frequencyStep st)
                    (real_of_int (int row - int (R div 2)) * frequencyStep st)))
             (snd (fourier_sum (pts st)
                    (real_of_int (int col - int (R div 2)) * frequencyStep st)
                    (real_of_int (int row - int (R div 2)) * frequencyStep st)))"
proof -
  let ?v = "\<lambda>row col (old::complex). Complex
             (fst (fourier_sum (pts st)
                    (real_of_int (int col - int (R div 2)) * frequencyStep st)
                    (real_of_int (int row - int (R div 2)) * frequencyStep st)))
             (snd (fourier_sum (pts st)
                    (real_of_int (int col - int (R div 2)) * frequencyStep st)
                    (real_of_int (int row - int (R div 2)) * frequencyStep st)))"
  have "complexSpectrum (continuous_fourier_spectrum st)
        = fold (\<lambda>row. fold (\<lambda>col cs. cs[row * R + col := ?v row col (cs ! (row * R + col))])
                        [0..<R]) [0..<R] (complexSpectrum st)"
    by (simp add: continuous_fourier_spectrum_def Let_def split_def assms(1,2))
  then show ?thesis
    using grid_update_nth [OF assms(4,5,3), of ?v] by (simp only:)
qed

lemma power_fourier_spectrum_fields [simp]:
  "xRes (power_fourier_spectrum st) = xRes st"
  "yRes (power_fourier_spectrum st) = yRes st"
  "pts (power_fourier_spectrum st) = pts st"
  "complexSpectrum (power_fourier_spectrum st) = complexSpectrum st"
  "frequencyStep (power_fourier_spectrum st) = frequencyStep st"
  "nTrials (power_fourier_spectrum st) = nTrials st"
  "trialStepOut (power_fourier_spectrum st) = trialStepOut st"
  "nSamples (power_fourier_spectrum st) = nSamples st"
  by (simp_all add: power_fourier_spectrum_def)

lemma power_fourier_spectrum_length [simp]:
  "length (powerSpectrum (power_fourier_spectrum st)) = length (powerSpectrum st)"
  by (simp add: power_fourier_spectrum_def Let_def length_grid_update)

lemma power_fourier_spectrum_nth:
  assumes "length (powerSpectrum st) = xRes st * yRes st" and "i < xRes st * yRes st"
  shows "powerSpectrum (power_fourier_spectrum st) ! i
         = fdiv_count (Fin (Re (complexSpectrum st ! i) * Re (complexSpectrum st ! i)
                            + Im (complexSpectrum st ! i) * Im (complexSpectrum st ! i)))
             (length (pts st))"
  using grid_update_flat [OF assms(2,1), where v = "\<lambda>r c old.
            fdiv_count (Fin (Re (complexSpectrum st ! (r * xRes st + c))
                              * Re (complexSpectrum st ! (r * xRes st + c))
                            + Im (complexSpectrum st ! (r * xRes st + c))
                              * Im (complexSpectrum st ! (r * xRes st + c))))
              (length (pts st))"]
  by (simp add: power_fourier_spectrum_def Let_def)

lemma continuous_fourier_spectrum_wf [simp]:
  "wf (continuous_fourier_spectrum st) = wf st"
  by (simp add: wf_def)

lemma power_fourier_spectrum_wf [simp]:
  "wf (power_fourier_spectrum st) = wf st"
  by (simp add: wf_def)

lemma FourierAnalyzer_fields [simp]:
  "xRes (FourierAnalyzer ns nt ts ws) = 512"
  "yRes (FourierAnalyzer ns nt ts ws) = 512"
  "pts (FourierAnalyzer ns nt ts ws) = []"
  "nSamples (FourierAnalyzer ns nt ts ws) = ns"
  "nTrials (FourierAnalyzer ns nt ts ws) = nt"
  "trialStepOut (FourierAnalyzer ns nt ts ws) = ts"
  "frequencyStep (FourierAnalyzer ns nt ts ws) = ws"
  by (simp_all add: FourierAnalyzer_def)

lemma FourierAnalyzer_wf [simp]: "wf (FourierAnalyzer ns nt ts ws)"
  by (simp add: FourierAnalyzer_def wf_def)

lemma continuous_fourier_spectrum_empty:
  assumes "wf st" and "xRes st = yRes st" and "pts st = []" and "i < xRes st * yRes st"
  shows "complexSpectrum (continuous_fourier_spectrum st) ! i = 0"
proof -
  let ?R = "yRes st"
  have R: "0 < ?R" using assms(2,4) by (cases "yRes st") simp_all
  have row: "i div ?R < ?R" using assms(2,4) by (simp add: less_mult_imp_div_less)
  have col: "i mod ?R < ?R" using R by simp
  have len: "length (complexSpectrum st) = ?R * ?R" using assms(1,2) by (simp add: wf_def)
  have "complexSpectrum (continuous_fourier_spectrum st) ! (i div ?R * ?R + i mod ?R) = Complex 0 0"
    using continuous_fourier_spectrum_nth [OF assms(2) refl len row col]
    by (simp add: assms(3) fourier_sum_def)
  then show ?thesis by (simp add: zero_complex.code)
qed

lemma analyzer_of_size_fields [simp]:
  "xRes (analyzer_of_size X Y ns nt ts ws) = X"
  "yRes (analyzer_of_size X Y ns nt ts ws) = Y"
  "pts (analyzer_of_size X Y ns nt ts ws) = []"
  "nSamples (analyzer_of_size X Y ns nt ts ws) = ns"
  "nTrials (analyzer_of_size X Y ns nt ts ws) = nt"
  "trialStepOut (analyzer_of_size X Y ns nt ts ws) = ts"
  "frequencyStep (analyzer_of_size X Y ns nt ts ws) = ws"
  "length (powerSpectrum (analyzer_of_size X Y ns nt ts ws)) = X * Y"
  "length (complexSpectrum (analyzer_of_size X Y ns nt ts ws)) = X * Y"
  by (simp_all add: analyzer_of_size_def)

lemma analyzer_of_size_wf [simp]: "wf (analyzer_of_size X Y ns nt ts ws)"
  by (simp add: wf_def)

lemma wf_pts_update [simp]: "wf (st\<lparr>pts := ps\<rparr>) = wf st"
  by (simp add: wf_def)

lemma sum_list_map_nth: "(\<Sum>x\<leftarrow>xs. f x) = (\<Sum>i<length xs. f (xs ! i))"
proof -
  have "(\<Sum>x\<leftarrow>xs. f x) = (\<Sum>i = 0..<length xs. map f xs ! i)"
    using sum_list_sum_nth [of "map f xs"] by simp
  also have "\<dots> = (\<Sum>i = 0..<length xs. f (xs ! i))"
    by (intro sum.cong) simp_all
  finally show ?thesis by (simp add: atLeast0LessThan)
qed

section \<open>Spectral transform\<close>

text \<open>
  C4: on an \<open>R\<close> by \<open>R\<close> grid with frequency step \<open>D\<close>, the transform writes to cell
  \<open>(row, col)\<close> the sum over the points of \<open>cos (-2 pi (wx x + wy y))\<close> as the real part
  and the sum of \<open>sin (-2 pi (wx x + wy y))\<close> as the imaginary part, with
  \<open>wx = (col - R/2) D\<close> and \<open>wy = (row - R/2) D\<close>. \<open>R/2\<close> is the integer half that the
  code computes (256 on the grid of the constructor).
\<close>

theorem continuous_fourier_spectrum_cell:
  assumes "wf st" and "xRes st = R" and "yRes st = R" and "row < R" and "col < R"
  shows "let D = frequencyStep st;
             wx = real_of_int (int col - int (R div 2)) * D;
             wy = real_of_int (int row - int (R div 2)) * D;
             N = length (pts st)
         in complexSpectrum (continuous_fourier_spectrum st) ! (row * R + col)
            = Complex (\<Sum>i<N. cos (- 2 * pi * (wx * px (pts st ! i) + wy * py (pts st ! i))))
                      (\<Sum>i<N. sin (- 2 * pi * (wx * px (pts st ! i) + wy * py (pts st ! i))))"
proof -
  have len: "length (complexSpectrum st) = R * R"
    using assms(1-3) by (simp add: wf_def)
  show ?thesis
    unfolding Let_def continuous_fourier_spectrum_nth [OF assms(2,3) len assms(4,5)]
      fourier_sum_eq fst_conv snd_conv sum_list_map_nth
    by (simp add: twopi_def)
qed

theorem continuous_fourier_spectrum_cell_witness:
  "wf ((analyzer_of_size 4 4 [1] 1 1 1)\<lparr>pts := [Point 0 0]\<rparr>)
   \<and> xRes ((analyzer_of_size 4 4 [1] 1 1 1)\<lparr>pts := [Point 0 0]\<rparr>) = 4
   \<and> yRes ((analyzer_of_size 4 4 [1] 1 1 1)\<lparr>pts := [Point 0 0]\<rparr>) = 4
   \<and> (2::nat) < 4
   \<and> complexSpectrum (continuous_fourier_spectrum
         ((analyzer_of_size 4 4 [1] 1 1 1)\<lparr>pts := [Point 0 0]\<rparr>)) ! (2 * 4 + 2) = Complex 1 0"
  using continuous_fourier_spectrum_cell
          [of "(analyzer_of_size 4 4 [1] 1 1 1)\<lparr>pts := [Point 0 0]\<rparr>" 4 2 2]
  by simp

section \<open>Power reduction\<close>

lemma no_points_power_cell:
  assumes "wf st" and "xRes st = yRes st" and "pts st = []" and "i < xRes st * yRes st"
  shows "powerSpectrum (power_fourier_spectrum (continuous_fourier_spectrum st)) ! i = NaN"
proof -
  have z: "complexSpectrum (continuous_fourier_spectrum st) ! i = 0"
    using assms by (rule continuous_fourier_spectrum_empty)
  have len: "length (powerSpectrum (continuous_fourier_spectrum st))
             = xRes (continuous_fourier_spectrum st) * yRes (continuous_fourier_spectrum st)"
    using assms(1) by (simp add: wf_def)
  have i: "i < xRes (continuous_fourier_spectrum st) * yRes (continuous_fourier_spectrum st)"
    using assms(4) by simp
  show ?thesis
    unfolding power_fourier_spectrum_nth [OF len i] by (simp add: z assms(3))
qed

text \<open>
  C3 (as the code has it): for a point set with no points, the power-reduction step, run
  on the spectrum that the transform computes for it, completes and writes NaN, the
  quotient \<open>0/0\<close>, to every cell: the division by the point count is not guarded.
\<close>

theorem power_fourier_spectrum_no_points:
  assumes "wf st" and "xRes st = yRes st" and "pts st = []" and "i < xRes st * yRes st"
  shows "powerSpectrum (power_fourier_spectrum (continuous_fourier_spectrum st)) ! i = NaN"
  using assms by (rule no_points_power_cell)

theorem power_fourier_spectrum_no_points_witness:
  "wf (analyzer_of_size 4 4 [0] 1 1 1)
   \<and> xRes (analyzer_of_size 4 4 [0] 1 1 1) = yRes (analyzer_of_size 4 4 [0] 1 1 1)
   \<and> pts (analyzer_of_size 4 4 [0] 1 1 1) = []
   \<and> (5::nat) < xRes (analyzer_of_size 4 4 [0] 1 1 1) * yRes (analyzer_of_size 4 4 [0] 1 1 1)
   \<and> powerSpectrum (power_fourier_spectrum (continuous_fourier_spectrum
         (analyzer_of_size 4 4 [0] 1 1 1))) ! 5 = NaN"
  using power_fourier_spectrum_no_points [of "analyzer_of_size 4 4 [0] 1 1 1" 5]
  by simp

text \<open>
  The claim as the spec states it (zero power for an empty point set) fails on the
  analyzer that the constructor builds, whose point set is empty: cell 0 is not zero.
\<close>

theorem power_fourier_spectrum_no_points_counterexample:
  "powerSpectrum (power_fourier_spectrum (continuous_fourier_spectrum
      (FourierAnalyzer [0] 1 1 1))) ! 0 \<noteq> Fin 0"
  using no_points_power_cell [of "FourierAnalyzer [0] 1 1 1" 0]
  by simp

section \<open>Radial reduction\<close>

subsection \<open>Distances in integer arithmetic\<close>

lemma cell_distance_eq:
  "cell_distance h r c = sqrt (real_of_int ((int h - int c)\<^sup>2 + (int h - int r)\<^sup>2))"
  by (simp add: cell_distance_def Let_def power2_eq_square)

lemma cell_skipped_iff:
  assumes "0 < h"
  shows "cell_skipped h r c \<longleftrightarrow> (int h - 1)\<^sup>2 < (int h - int c)\<^sup>2 + (int h - int r)\<^sup>2"
proof -
  let ?n = "(int h - int c)\<^sup>2 + (int h - int r)\<^sup>2"
  have nn: "0 \<le> real_of_int (int h - 1)" using assms by simp
  have "real_of_int (int h - 1) = sqrt ((real_of_int (int h - 1))\<^sup>2)"
    using nn by simp
  then have "cell_skipped h r c \<longleftrightarrow> sqrt ((real_of_int (int h - 1))\<^sup>2) < sqrt (real_of_int ?n)"
    by (simp only: cell_skipped_def cell_distance_eq)
  also have "\<dots> \<longleftrightarrow> (real_of_int (int h - 1))\<^sup>2 < real_of_int ?n"
    by (rule real_sqrt_less_iff)
  also have "\<dots> \<longleftrightarrow> real_of_int ((int h - 1)\<^sup>2) < real_of_int ?n"
    by simp
  also have "\<dots> \<longleftrightarrow> (int h - 1)\<^sup>2 < ?n"
    by (rule of_int_less_iff)
  finally show ?thesis .
qed

lemma cell_index_eqI:
  assumes "(int k)\<^sup>2 \<le> (int h - int c)\<^sup>2 + (int h - int r)\<^sup>2"
    and "(int h - int c)\<^sup>2 + (int h - int r)\<^sup>2 < (int k + 1)\<^sup>2"
  shows "cell_index h r c = k"
proof -
  let ?n = "(int h - int c)\<^sup>2 + (int h - int r)\<^sup>2"
  have "(real_of_int (int k))\<^sup>2 \<le> real_of_int ?n"
    using assms(1) by (metis of_int_le_iff of_int_power)
  then have lo: "real_of_int (int k) \<le> sqrt (real_of_int ?n)"
    by (rule real_le_rsqrt)
  have "real_of_int ?n < (real_of_int (int k) + 1)\<^sup>2"
    using assms(2) by (metis of_int_less_iff of_int_power of_int_add of_int_1)
  then have hi: "sqrt (real_of_int ?n) < real_of_int (int k) + 1"
    by (intro real_less_lsqrt) simp_all
  have "\<lfloor>sqrt (real_of_int ?n)\<rfloor> = int k"
    using lo hi by (rule floor_unique)
  then show ?thesis by (simp add: cell_index_def cell_distance_eq)
qed

text \<open>The cell in the centre row, \<open>i\<close> columns left of the centre, contributes to bin \<open>i\<close>.\<close>

lemma centre_row_in_bin:
  assumes "i < h"
  shows "in_bin h i (h, h - i)"
proof -
  have c: "int h - int (h - i) = int i" using assms by simp
  have le: "int i \<le> int h - 1" using assms by simp
  have "int i * int i \<le> (int h - 1) * (int h - 1)"
    using le by (intro mult_mono) simp_all
  then have "\<not> cell_skipped h h (h - i)"
    using assms by (simp add: cell_skipped_iff c power2_eq_square)
  moreover have "cell_index h h (h - i) = i"
    by (rule cell_index_eqI) (simp_all add: c power2_eq_square algebra_simps)
  ultimately show ?thesis by (simp add: in_bin_def)
qed

subsection \<open>The two loops\<close>

lemma radial_bins_fold:
  "radial_bins st = fold (bin_step (xRes st div 2) (xRes st) (powerSpectrum st))
                      (List.product [0..<yRes st] [0..<xRes st])
                      (replicate (xRes st div 2) (Fin 0), replicate (xRes st div 2) 0)"
  by (simp add: radial_bins_def Let_def fold_nested bin_step_def)

lemma bin_step_length:
  "length (fst (fold (bin_step h X ps) cs HC)) = length (fst HC)
   \<and> length (snd (fold (bin_step h X ps) cs HC)) = length (snd HC)"
  by (induction cs arbitrary: HC) (simp_all add: bin_step_def split_def)

lemma radial_fold:
  fixes ps :: "flt list" and h X :: nat
  defines "step \<equiv> bin_step h X ps"
  assumes "i < length H" and "i < length C"
  shows "fst (fold step cs (H, C)) ! i
           = foldl fadd (H ! i) (map (\<lambda>(r, c). ps ! (r * X + c)) (filter (in_bin h i) cs))
         \<and> snd (fold step cs (H, C)) ! i = C ! i + length (filter (in_bin h i) cs)"
  using assms(2,3)
proof (induction cs arbitrary: H C)
  case Nil
  then show ?case by simp
next
  case (Cons p cs)
  obtain r c where p: "p = (r, c)" by (cases p)
  show ?case
  proof (cases "cell_skipped h r c")
    case True
    then have "fold step (p # cs) (H, C) = fold step cs (H, C)"
      by (simp add: p step_def bin_step_def)
    moreover have "filter (in_bin h i) (p # cs) = filter (in_bin h i) cs"
      using True by (simp add: p in_bin_def)
    ultimately show ?thesis using Cons.IH [OF Cons.prems] by simp
  next
    case False
    let ?k = "cell_index h r c"
    let ?H = "H[?k := fadd (H ! ?k) (ps ! (r * X + c))]"
    let ?C = "C[?k := C ! ?k + 1]"
    have unfold: "step (r, c) (H, C) = (?H, ?C)"
      using False by (simp add: step_def bin_step_def)
    have len: "i < length ?H" "i < length ?C" using Cons.prems by simp_all
    note IH = Cons.IH [OF len]
    show ?thesis
    proof (cases "?k = i")
      case True
      then have "filter (in_bin h i) (p # cs) = p # filter (in_bin h i) cs"
        using False by (simp add: p in_bin_def)
      then show ?thesis using IH True Cons.prems by (simp add: unfold p)
    next
      case ne: False
      then have "filter (in_bin h i) (p # cs) = filter (in_bin h i) cs"
        by (simp add: p in_bin_def)
      then show ?thesis using IH ne by (simp add: unfold p)
    qed
  qed
qed

lemma radial_bins_length:
  "length (fst (radial_bins st)) = xRes st div 2"
  "length (snd (radial_bins st)) = xRes st div 2"
  by (simp_all add: radial_bins_fold bin_step_length)

lemma radial_bins_nth:
  assumes "i < xRes st div 2"
  shows "fst (radial_bins st) ! i
           = foldl fadd (Fin 0) (map (\<lambda>(r, c). powerSpectrum st ! (r * xRes st + c))
               (filter (in_bin (xRes st div 2) i) (List.product [0..<yRes st] [0..<xRes st])))
         \<and> snd (radial_bins st) ! i
           = length (filter (in_bin (xRes st div 2) i) (List.product [0..<yRes st] [0..<xRes st]))"
  using radial_fold [of i "replicate (xRes st div 2) (Fin 0)" "replicate (xRes st div 2) 0"
          "xRes st div 2" "xRes st" "powerSpectrum st" "List.product [0..<yRes st] [0..<xRes st]"]
    assms
  by (simp add: radial_bins_fold)

lemma radial_mean_nth:
  assumes "i < xRes st div 2"
  shows "radial_mean st ! i = fdiv_count (fst (radial_bins st) ! i) (snd (radial_bins st) ! i)"
proof -
  let ?H = "fst (radial_bins st)" and ?C = "snd (radial_bins st)"
  have len: "i < length ?H" using assms by (simp add: radial_bins_length)
  have "fold (\<lambda>i h. h[i := fdiv_count (h ! i) (?C ! i)]) [0..<xRes st div 2] ?H ! i
        = fdiv_count (?H ! i) (?C ! i)"
    using fold_update_nth [of "\<lambda>i. i" "[0..<xRes st div 2]" i ?H "\<lambda>i old. fdiv_count old (?C ! i)"]
      assms len by simp
  then show ?thesis by (simp add: radial_mean_def Let_def split_def)
qed

lemma radial_mean_length: "length (radial_mean st) = xRes st div 2"
  by (simp add: radial_mean_def Let_def split_def length_fold_update radial_bins_length)

subsection \<open>Bins are never empty\<close>

lemma half_less: "i < R div 2 \<Longrightarrow> R div 2 < (R::nat)"
  by (cases R) simp_all

lemma bin_nonempty:
  assumes "i < R div 2"
  shows "0 < length (filter (in_bin (R div 2) i) (List.product [0..<R] [0..<R]))"
proof -
  have h: "R div 2 < R" using assms by (rule half_less)
  have "(R div 2, R div 2 - i) \<in> set (List.product [0..<R] [0..<R])"
    using h by simp
  moreover have "in_bin (R div 2) i (R div 2, R div 2 - i)"
    using assms by (rule centre_row_in_bin)
  ultimately have "(R div 2, R div 2 - i)
      \<in> set (filter (in_bin (R div 2) i) (List.product [0..<R] [0..<R]))"
    by simp
  then show ?thesis by (rule length_pos_if_in_set)
qed

lemma radial_mean_cells:
  assumes "xRes st = R" and "yRes st = R" and "i < R div 2"
  shows "radial_mean st ! i
         = fdiv_count
             (foldl fadd (Fin 0) (map (\<lambda>(r, c). powerSpectrum st ! (r * R + c))
                (filter (in_bin (R div 2) i) (List.product [0..<R] [0..<R]))))
             (length (filter (in_bin (R div 2) i) (List.product [0..<R] [0..<R])))"
  using assms radial_mean_nth [of i st] radial_bins_nth [of i st] by simp

lemma foldl_fadd_const:
  assumes "\<forall>x\<in>set xs. f x = Fin v"
  shows "foldl fadd (Fin a) (map f xs) = Fin (a + real (length xs) * v)"
  using assms by (induction xs arbitrary: a) (simp_all add: algebra_simps)

lemma foldl_fadd_finite:
  assumes "\<forall>x\<in>set xs. is_finite (f x)"
  shows "is_finite (foldl fadd (Fin a) (map f xs))"
  using assms
proof (induction xs arbitrary: a)
  case Nil
  then show ?case by (simp add: is_finite_def)
next
  case (Cons x xs)
  then obtain b where "f x = Fin b" by (cases "f x") (simp_all add: is_finite_def)
  then show ?case using Cons by simp
qed

lemma fdiv_count_finite: "is_finite x \<Longrightarrow> 0 < n \<Longrightarrow> is_finite (fdiv_count x n)"
  by (cases x) (simp_all add: is_finite_def)

lemma radial_mean_const_cell:
  assumes "xRes st = R" and "yRes st = R" and "i < R div 2"
    and "\<forall>r<R. \<forall>c<R. \<not> cell_skipped (R div 2) r c \<longrightarrow> powerSpectrum st ! (r * R + c) = Fin v"
  shows "radial_mean st ! i = Fin v"
proof -
  let ?cells = "filter (in_bin (R div 2) i) (List.product [0..<R] [0..<R])"
  have "\<forall>p\<in>set ?cells. (\<lambda>(r, c). powerSpectrum st ! (r * R + c)) p = Fin v"
    using assms(4) by (auto simp: in_bin_def)
  then have "foldl fadd (Fin 0) (map (\<lambda>(r, c). powerSpectrum st ! (r * R + c)) ?cells)
             = Fin (0 + real (length ?cells) * v)"
    by (rule foldl_fadd_const)
  moreover have "0 < length ?cells" using assms(3) by (rule bin_nonempty)
  ultimately show ?thesis
    using radial_mean_cells [OF assms(1-3)] by simp
qed

lemma radial_mean_finite_cell:
  assumes "xRes st = R" and "yRes st = R" and "i < R div 2"
    and "\<forall>r<R. \<forall>c<R. is_finite (powerSpectrum st ! (r * R + c))"
  shows "is_finite (radial_mean st ! i)"
proof -
  let ?cells = "filter (in_bin (R div 2) i) (List.product [0..<R] [0..<R])"
  have "\<forall>p\<in>set ?cells. is_finite ((\<lambda>(r, c). powerSpectrum st ! (r * R + c)) p)"
    using assms(4) by auto
  then have "is_finite (foldl fadd (Fin 0) (map (\<lambda>(r, c). powerSpectrum st ! (r * R + c)) ?cells))"
    by (rule foldl_fadd_finite)
  moreover have "0 < length ?cells" using assms(3) by (rule bin_nonempty)
  ultimately show ?thesis
    using radial_mean_cells [OF assms(1-3)] by (simp add: fdiv_count_finite)
qed

lemma analyzer_of_size_arrays [simp]:
  "powerSpectrum (analyzer_of_size X Y ns nt ts ws) = replicate (X * Y) (Fin 0)"
  "complexSpectrum (analyzer_of_size X Y ns nt ts ws) = replicate (X * Y) 0"
  by (simp_all add: analyzer_of_size_def)

lemma wf_powerSpectrum_update [simp]:
  "wf (st\<lparr>powerSpectrum := ps\<rparr>)
   = (length ps = xRes st * yRes st \<and> length (complexSpectrum st) = xRes st * yRes st)"
  by (simp add: wf_def)

subsection \<open>The claims about radial reduction\<close>

text \<open>
  C5 (as the code has it): on a square \<open>R\<close> by \<open>R\<close> grid with centre \<open>(R/2, R/2)\<close> the
  bin of cell \<open>(r, c)\<close> is \<open>d = floor (sqrt ((R/2 - c)^2 + (R/2 - r)^2))\<close>; the cell is
  skipped if and only if the distance itself, not its integer part, is greater than
  \<open>R/2 - 1\<close>; the powers of the other cells are added to bin \<open>d\<close>, in the order of the
  loop and starting from zero, and counted; every bin in \<open>[0, R/2)\<close> is then divided by
  its count.
\<close>

theorem radial_mean_bin:
  assumes "wf st" and "xRes st = R" and "yRes st = R" and "i < R div 2"
  shows "let h = R div 2;
             cells = filter (\<lambda>(r, c). \<not> cell_skipped h r c \<and> cell_index h r c = i)
                       (List.product [0..<R] [0..<R])
         in (\<forall>r c. cell_index h r c
                   = nat \<lfloor>sqrt (real_of_int ((int h - int c)\<^sup>2 + (int h - int r)\<^sup>2))\<rfloor>)
          \<and> (\<forall>r c. cell_skipped h r c
                   = (sqrt (real_of_int ((int h - int c)\<^sup>2 + (int h - int r)\<^sup>2))
                        > real_of_int (int h - 1)))
          \<and> radial_mean st ! i
              = fdiv_count
                  (foldl fadd (Fin 0) (map (\<lambda>(r, c). powerSpectrum st ! (r * R + c)) cells))
                  (length cells)
          \<and> length (radial_mean st) = h"
proof -
  have "filter (\<lambda>(r, c). \<not> cell_skipped (R div 2) r c \<and> cell_index (R div 2) r c = i)
          (List.product [0..<R] [0..<R])
        = filter (in_bin (R div 2) i) (List.product [0..<R] [0..<R])"
    by (simp add: in_bin_def)
  then show ?thesis
    using radial_mean_cells [OF assms(2-4)] assms(2)
    by (simp add: Let_def radial_mean_length cell_index_def cell_skipped_def cell_distance_eq)
qed

theorem radial_mean_bin_witness:
  "wf (analyzer_of_size 4 4 [1] 1 1 1)
   \<and> xRes (analyzer_of_size 4 4 [1] 1 1 1) = 4
   \<and> yRes (analyzer_of_size 4 4 [1] 1 1 1) = 4
   \<and> (1::nat) < 4 div 2
   \<and> radial_mean (analyzer_of_size 4 4 [1] 1 1 1) ! 1
       = fdiv_count
           (foldl fadd (Fin 0)
              (map (\<lambda>(r, c). powerSpectrum (analyzer_of_size 4 4 [1] 1 1 1) ! (r * 4 + c))
                 (filter (\<lambda>(r, c). \<not> cell_skipped (4 div 2) r c \<and> cell_index (4 div 2) r c = 1)
                    (List.product [0..<4] [0..<4]))))
           (length (filter (\<lambda>(r, c). \<not> cell_skipped (4 div 2) r c \<and> cell_index (4 div 2) r c = 1)
                      (List.product [0..<4] [0..<4])))"
proof -
  have h1: "wf (analyzer_of_size 4 4 [1] 1 1 1)" by simp
  have h2: "xRes (analyzer_of_size 4 4 [1] 1 1 1) = 4" by simp
  have h3: "yRes (analyzer_of_size 4 4 [1] 1 1 1) = 4" by simp
  have h4: "(1::nat) < 4 div 2" by simp
  show ?thesis
    using h1 h2 h3 h4 radial_mean_bin [OF h1 h2 h3 h4] unfolding Let_def by blast
qed

text \<open>
  The rule of the spec (skip if and only if \<open>d > R/2 - 1\<close>) fails on the grid of the
  constructor at row 240, column 1: the distance is \<open>sqrt 65281\<close>, so \<open>d = 255\<close> is not
  greater than 255, and the code skips the cell.
\<close>

theorem radial_mean_bin_counterexample:
  "cell_skipped (512 div 2) 240 1 \<and> \<not> (int (cell_index (512 div 2) 240 1) > 512 div 2 - 1)"
proof -
  have "cell_skipped 256 240 1"
    by (simp add: cell_skipped_iff)
  moreover have "cell_index 256 240 1 = 255"
    by (rule cell_index_eqI) simp_all
  ultimately show ?thesis by simp
qed

text \<open>
  C8: if the power spectrum has the same value \<open>v\<close> at every cell that the loop does not
  skip, every bin in \<open>[0, R/2)\<close> of the radial mean is \<open>v\<close>.
\<close>

theorem radial_mean_constant:
  assumes "wf st" and "xRes st = R" and "yRes st = R" and "i < R div 2"
    and "\<forall>r<R. \<forall>c<R. \<not> cell_skipped (R div 2) r c \<longrightarrow> powerSpectrum st ! (r * R + c) = Fin v"
  shows "radial_mean st ! i = Fin v"
  using assms(2-5) by (rule radial_mean_const_cell)

theorem radial_mean_constant_witness:
  "wf ((analyzer_of_size 4 4 [1] 1 1 1)\<lparr>powerSpectrum := replicate 16 (Fin 3)\<rparr>)
   \<and> xRes ((analyzer_of_size 4 4 [1] 1 1 1)\<lparr>powerSpectrum := replicate 16 (Fin 3)\<rparr>) = 4
   \<and> yRes ((analyzer_of_size 4 4 [1] 1 1 1)\<lparr>powerSpectrum := replicate 16 (Fin 3)\<rparr>) = 4
   \<and> (1::nat) < 4 div 2
   \<and> radial_mean ((analyzer_of_size 4 4 [1] 1 1 1)\<lparr>powerSpectrum := replicate 16 (Fin 3)\<rparr>) ! 1
       = Fin 3"
proof -
  let ?A = "(analyzer_of_size 4 4 [1] 1 1 1)\<lparr>powerSpectrum := replicate 16 (Fin 3)\<rparr>"
  have h1: "wf ?A" by simp
  have h2: "xRes ?A = 4" by simp
  have h3: "yRes ?A = 4" by simp
  have h4: "(1::nat) < 4 div 2" by simp
  have h5: "\<forall>r<4. \<forall>c<4. \<not> cell_skipped (4 div 2) r c \<longrightarrow> powerSpectrum ?A ! (r * 4 + c) = Fin 3"
    by simp
  show ?thesis
    using h1 h2 h3 h4 radial_mean_constant [OF h1 h2 h3 h4 h5] by blast
qed

text \<open>
  C9: no bin of the radial reduction is without a contributing cell. Every bin in
  \<open>[0, R/2)\<close> has a positive count (the cell of the centre row at distance \<open>i\<close> is in
  bin \<open>i\<close>), so the division, although not guarded, is never by a zero count, and a
  spectrum of finite values has a radial mean of finite values: no NaN.
\<close>

theorem radial_bin_never_empty:
  assumes "xRes st = R" and "yRes st = R" and "i < R div 2"
  shows "0 < snd (radial_bins st) ! i
         \<and> radial_mean st ! i = fdiv_count (fst (radial_bins st) ! i) (snd (radial_bins st) ! i)
         \<and> ((\<forall>r<R. \<forall>c<R. is_finite (powerSpectrum st ! (r * R + c)))
              \<longrightarrow> is_finite (radial_mean st ! i))"
proof -
  have "0 < snd (radial_bins st) ! i"
    using bin_nonempty [OF assms(3)] radial_bins_nth [of i st] assms by simp
  moreover have "radial_mean st ! i
                 = fdiv_count (fst (radial_bins st) ! i) (snd (radial_bins st) ! i)"
    using assms by (intro radial_mean_nth) simp
  ultimately show ?thesis
    using radial_mean_finite_cell [OF assms] by blast
qed

theorem radial_bin_never_empty_witness:
  "xRes (analyzer_of_size 4 4 [1] 1 1 1) = 4
   \<and> yRes (analyzer_of_size 4 4 [1] 1 1 1) = 4
   \<and> (1::nat) < 4 div 2
   \<and> 0 < snd (radial_bins (analyzer_of_size 4 4 [1] 1 1 1)) ! 1
   \<and> is_finite (radial_mean (analyzer_of_size 4 4 [1] 1 1 1) ! 1)"
proof -
  let ?A = "analyzer_of_size 4 4 [1] 1 1 1"
  have h1: "xRes ?A = 4" by simp
  have h2: "yRes ?A = 4" by simp
  have h3: "(1::nat) < 4 div 2" by simp
  have h4: "\<forall>r<4. \<forall>c<4. is_finite (powerSpectrum ?A ! (r * 4 + c))"
    by (simp add: is_finite_def)
  show ?thesis
    using h1 h2 h3 h4 radial_bin_never_empty [OF h1 h2 h3] by blast
qed

section \<open>The analysis loop\<close>

lemma clear_power_fields [simp]:
  "xRes (clear_power st) = xRes st"
  "yRes (clear_power st) = yRes st"
  "pts (clear_power st) = pts st"
  "complexSpectrum (clear_power st) = complexSpectrum st"
  "frequencyStep (clear_power st) = frequencyStep st"
  "nTrials (clear_power st) = nTrials st"
  "trialStepOut (clear_power st) = trialStepOut st"
  "nSamples (clear_power st) = nSamples st"
  "length (powerSpectrum (clear_power st)) = length (powerSpectrum st)"
  by (simp_all add: clear_power_def length_fold_update)

lemma clear_power_wf [simp]: "wf (clear_power st) = wf st"
  by (simp add: wf_def)

lemma mean_power_fields [simp]:
  "xRes (mean_power acc trial st) = xRes st"
  "yRes (mean_power acc trial st) = yRes st"
  "pts (mean_power acc trial st) = pts st"
  "complexSpectrum (mean_power acc trial st) = complexSpectrum st"
  "frequencyStep (mean_power acc trial st) = frequencyStep st"
  "nTrials (mean_power acc trial st) = nTrials st"
  "trialStepOut (mean_power acc trial st) = trialStepOut st"
  "nSamples (mean_power acc trial st) = nSamples st"
  "length (powerSpectrum (mean_power acc trial st)) = length (powerSpectrum st)"
  by (simp_all add: mean_power_def Let_def length_grid_update)

lemma mean_power_wf [simp]: "wf (mean_power acc trial st) = wf st"
  by (simp add: wf_def)

lemma mean_power_nth:
  assumes "length (powerSpectrum st) = xRes st * yRes st" and "i < xRes st * yRes st"
  shows "powerSpectrum (mean_power acc trial st) ! i = fdiv_count (acc ! i) (nat trial)"
  using grid_update_flat [OF assms(2,1), where v = "\<lambda>r c old.
            fdiv_count (acc ! (r * xRes st + c)) (nat trial)"]
  by (simp add: mean_power_def Let_def)

lemma accumulate_length [simp]: "length (accumulate st acc) = length acc"
  by (simp add: accumulate_def Let_def length_grid_update)

lemma accumulate_nth:
  assumes "length acc = xRes st * yRes st" and "i < xRes st * yRes st"
  shows "accumulate st acc ! i = fadd (acc ! i) (powerSpectrum st ! i)"
  using grid_update_flat [OF assms(2,1), where v = "\<lambda>r c old.
            fadd old (powerSpectrum st ! (r * xRes st + c))"]
  by (simp add: accumulate_def Let_def)

lemma trial_spectrum_fields [simp]:
  "xRes (trial_spectrum st ps) = xRes st"
  "yRes (trial_spectrum st ps) = yRes st"
  "pts (trial_spectrum st ps) = ps"
  "frequencyStep (trial_spectrum st ps) = frequencyStep st"
  "nTrials (trial_spectrum st ps) = nTrials st"
  "trialStepOut (trial_spectrum st ps) = trialStepOut st"
  "nSamples (trial_spectrum st ps) = nSamples st"
  "length (powerSpectrum (trial_spectrum st ps)) = length (powerSpectrum st)"
  "length (complexSpectrum (trial_spectrum st ps)) = length (complexSpectrum st)"
  by (simp_all add: trial_spectrum_def)

lemma trial_spectrum_wf [simp]: "wf (trial_spectrum st ps) = wf st"
  by (simp add: wf_def)

subsection \<open>A snapshot\<close>

lemma snapshot_square:
  assumes "xRes (self rs) = yRes (self rs)"
  shows "self (snapshot n trial rs) = mean_power (powerAccum rs) trial (self rs)"
    and "written (snapshot n trial rs)
         = written rs @ [WriteExr n trial (powerSpectrum (mean_power (powerAccum rs) trial (self rs))),
                         WriteRadial n trial
                           (map (\<lambda>i. (i, radial_mean (mean_power (powerAccum rs) trial (self rs)) ! i))
                                [0..<xRes (self rs) div 2 - 5])]"
    and "halted (snapshot n trial rs) = halted rs"
    and "powerAccum (snapshot n trial rs) = powerAccum rs"
    and "sampler (snapshot n trial rs) = sampler rs"
  using assms by (simp_all add: snapshot_def Let_def compute_radial_mean_powerspectrum_def)

lemma snapshot_not_square:
  assumes "xRes (self rs) \<noteq> yRes (self rs)"
  shows "halted (snapshot n trial rs) = Some (Exit (- 2))"
    and "written (snapshot n trial rs)
         = written rs @ [WriteExr n trial (powerSpectrum (mean_power (powerAccum rs) trial (self rs)))]"
  using assms by (simp_all add: snapshot_def Let_def compute_radial_mean_powerspectrum_def)

subsection \<open>One trial\<close>

lemma smod_eq_0_iff: "l \<noteq> 0 \<Longrightarrow> (k::int) smod l = 0 \<longleftrightarrow> l dvd k"
  by (auto simp: signed_modulo_int_def sgn_if mod_eq_0_iff_dvd)

lemma run_trial_halted: "halted rs \<noteq> None \<Longrightarrow> run_trial Sample n trial rs = rs"
  by (simp add: run_trial_def)

lemma run_trial_unfold:
  assumes "halted rs = None"
  shows "run_trial Sample n trial rs =
     (let st = trial_spectrum (self rs) (fst (Sample (sampler rs) n));
          rs1 = rs\<lparr>self := st, sampler := snd (Sample (sampler rs) n),
                   powerAccum := accumulate st (powerAccum rs)\<rparr>
      in if trial = 1 then snapshot n trial rs1
         else if trialStepOut (self rs) = 0 then rs1\<lparr>halted := Some DivisionByZero\<rparr>
         else if trialStepOut (self rs) dvd trial then snapshot n trial rs1
         else rs1)"
  using assms
  by (simp add: run_trial_def Let_def split_def trial_spectrum_def smod_eq_0_iff)

lemma snapshot_self_fields [simp]:
  "xRes (self (snapshot n trial rs)) = xRes (self rs)"
  "yRes (self (snapshot n trial rs)) = yRes (self rs)"
  "nTrials (self (snapshot n trial rs)) = nTrials (self rs)"
  "trialStepOut (self (snapshot n trial rs)) = trialStepOut (self rs)"
  "nSamples (self (snapshot n trial rs)) = nSamples (self rs)"
  "frequencyStep (self (snapshot n trial rs)) = frequencyStep (self rs)"
  by (simp_all add: snapshot_def Let_def split: sum.splits)

lemma run_trial_self_fields [simp]:
  "xRes (self (run_trial Sample n trial rs)) = xRes (self rs)"
  "yRes (self (run_trial Sample n trial rs)) = yRes (self rs)"
  "nTrials (self (run_trial Sample n trial rs)) = nTrials (self rs)"
  "trialStepOut (self (run_trial Sample n trial rs)) = trialStepOut (self rs)"
  "nSamples (self (run_trial Sample n trial rs)) = nSamples (self rs)"
  "frequencyStep (self (run_trial Sample n trial rs)) = frequencyStep (self rs)"
  by (cases "halted rs = None"; simp add: run_trial_unfold run_trial_halted Let_def)+

lemma run_trial_no_exit:
  assumes "xRes (self rs) = yRes (self rs)" and "halted rs \<noteq> Some (Exit (- 2))"
  shows "halted (run_trial Sample n trial rs) \<noteq> Some (Exit (- 2))"
proof (cases "halted rs = None")
  case True
  then show ?thesis
    using assms(1) by (simp add: run_trial_unfold Let_def snapshot_square)
next
  case False
  then show ?thesis using assms(2) by (simp add: run_trial_halted)
qed

lemma due_Cons:
  "due ts n (t # trs) = (if t = 1 \<or> ts dvd t then [(Exr, n, t), (Radial, n, t)] else []) @ due ts n trs"
  by (simp add: due_def)

lemma run_trial_going:
  assumes "going R ts nt rs" and "ts \<noteq> 0"
  shows "going R ts nt (run_trial Sample n trial rs)"
    and "map event_key (written (run_trial Sample n trial rs))
         = map event_key (written rs) @ due ts n [trial]"
  using assms
  by (simp_all add: going_def run_trial_unfold Let_def snapshot_square due_def)

lemma run_trial_list_going:
  assumes "going R ts nt rs" and "ts \<noteq> 0"
  shows "going R ts nt (fold (run_trial Sample n) trs rs)
         \<and> map event_key (written (fold (run_trial Sample n) trs rs))
           = map event_key (written rs) @ due ts n trs"
  using assms(1)
proof (induction trs arbitrary: rs)
  case Nil
  then show ?case by (simp add: due_def)
next
  case (Cons t trs)
  have g: "going R ts nt (run_trial Sample n t rs)"
    using Cons.prems assms(2) by (rule run_trial_going)
  have w: "map event_key (written (run_trial Sample n t rs))
           = map event_key (written rs) @ due ts n [t]"
    using Cons.prems assms(2) by (rule run_trial_going)
  show ?case
    using Cons.IH [OF g] w by (simp add: due_Cons due_def)
qed

lemma run_trials_going:
  assumes "going R ts nt rs" and "ts \<noteq> 0"
  shows "going R ts nt (run_trials Sample n rs)
         \<and> map event_key (written (run_trials Sample n rs))
           = map event_key (written rs) @ due ts n [1..nt]"
proof -
  have "nTrials (self rs) = nt" using assms(1) by (simp add: going_def)
  then show ?thesis
    using run_trial_list_going [OF assms, of Sample n "[1..nt]"] by (simp add: run_trials_def)
qed

lemma run_sample_counts_going:
  assumes "going R ts nt rs" and "ts \<noteq> 0"
  shows "going R ts nt (run_sample_counts Sample ns rs)
         \<and> map event_key (written (run_sample_counts Sample ns rs))
           = map event_key (written rs) @ concat (map (\<lambda>n. due ts n [1..nt]) ns)"
  using assms(1)
proof (induction ns arbitrary: rs)
  case Nil
  then show ?case by (simp add: run_sample_counts_def)
next
  case (Cons n ns)
  note step = run_trials_going [OF Cons.prems assms(2), of Sample n]
  have "going R ts nt (run_trials Sample n rs)" using step by simp
  from Cons.IH [OF this] step show ?case
    by (simp add: run_sample_counts_def)
qed

lemma start_fields [simp]:
  "self (start s st) = st"
  "sampler (start s st) = s"
  "powerAccum (start s st) = replicate (xRes st * yRes st) (Fin 0)"
  "written (start s st) = []"
  "halted (start s st) = None"
  by (simp_all add: start_def)

lemma start_going: "xRes st = yRes st \<Longrightarrow> going (yRes st) (trialStepOut st) (nTrials st) (start s st)"
  by (simp add: going_def)

lemma run_trials_halted: "halted rs \<noteq> None \<Longrightarrow> run_trials Sample n rs = rs"
proof -
  assume h: "halted rs \<noteq> None"
  have "fold (run_trial Sample n) trs rs = rs" for trs
    by (induction trs) (simp_all add: run_trial_halted h)
  then show ?thesis by (simp add: run_trials_def)
qed

lemma run_sample_counts_halted: "halted rs \<noteq> None \<Longrightarrow> run_sample_counts Sample ns rs = rs"
  unfolding run_sample_counts_def
  by (induction ns) (simp_all add: run_trials_halted)

lemma steps_square:
  assumes "xRes (self rs) = R" and "yRes (self rs) = R" and "halted rs \<noteq> Some (Exit (- 2))"
  shows "xRes (self (fold (\<lambda>(n, trial). run_trial Sample n trial) steps rs)) = R
         \<and> yRes (self (fold (\<lambda>(n, trial). run_trial Sample n trial) steps rs)) = R
         \<and> halted (fold (\<lambda>(n, trial). run_trial Sample n trial) steps rs) \<noteq> Some (Exit (- 2))"
  using assms
proof (induction steps arbitrary: rs)
  case Nil
  then show ?case by simp
next
  case (Cons p steps)
  obtain n trial where p: "p = (n, trial)" by (cases p)
  have "halted (run_trial Sample n trial rs) \<noteq> Some (Exit (- 2))"
    using Cons.prems by (intro run_trial_no_exit) simp_all
  then show ?case using Cons.IH [of "run_trial Sample n trial rs"] Cons.prems
    by (simp add: p)
qed

lemma RunAnalysis_steps:
  "RunAnalysis Sample s st
   = fold (\<lambda>(n, trial). run_trial Sample n trial)
       (List.product (nSamples st) [1..nTrials st]) (start s st)"
proof -
  have trials: "run_trials Sample n rs = fold (run_trial Sample n) [1..nTrials st] rs"
    if "nTrials (self rs) = nTrials st" for n and rs :: "'a run_state"
    using that by (simp add: run_trials_def)
  have keep: "nTrials (self (fold (run_trial Sample n) trs rs)) = nTrials (self rs)"
    for n trs and rs :: "'a run_state"
    by (induction trs arbitrary: rs) simp_all
  have "nTrials (self rs) = nTrials st \<Longrightarrow>
        fold (run_trials Sample) ns rs
        = fold (\<lambda>n. fold (run_trial Sample n) [1..nTrials st]) ns rs"
    for ns and rs :: "'a run_state"
    by (induction ns arbitrary: rs) (simp_all add: trials keep)
  then show ?thesis
    by (simp add: RunAnalysis_def run_sample_counts_def fold_nested)
qed

lemma compute_radial_square:
  "xRes st = yRes st \<Longrightarrow> compute_radial_mean_powerspectrum st \<noteq> Inl e"
  by (simp add: compute_radial_mean_powerspectrum_def)

section \<open>The claims about the analysis loop\<close>

text \<open>
  C6: for a snapshot interval \<open>trialStepOut\<close> other than zero, the run writes, for every
  configured sample count in turn, an image and a radial profile at trial 1 and at every
  trial from 1 to \<open>nTrials\<close> that is a multiple of \<open>trialStepOut\<close>, in the order of the
  trials, and nothing else; the run does not halt.
\<close>

theorem snapshot_trials:
  assumes "wf st" and "xRes st = yRes st" and "trialStepOut st \<noteq> 0"
  shows "halted (RunAnalysis Sample s st) = None
         \<and> map event_key (written (RunAnalysis Sample s st))
           = concat (map (\<lambda>n. concat (map (\<lambda>t. [(Exr, n, t), (Radial, n, t)])
                                  (filter (\<lambda>t. t = 1 \<or> trialStepOut st dvd t) [1..nTrials st])))
               (nSamples st))"
  using run_sample_counts_going [OF start_going [OF assms(2)] assms(3), of Sample "nSamples st" s]
  by (simp add: RunAnalysis_def going_def due_def)

theorem snapshot_trials_witness:
  "wf (analyzer_of_size 4 4 [7] 5 2 1)
   \<and> xRes (analyzer_of_size 4 4 [7] 5 2 1) = yRes (analyzer_of_size 4 4 [7] 5 2 1)
   \<and> trialStepOut (analyzer_of_size 4 4 [7] 5 2 1) \<noteq> 0
   \<and> map event_key (written (RunAnalysis origin_sampler () (analyzer_of_size 4 4 [7] 5 2 1)))
     = [(Exr, 7, 1), (Radial, 7, 1), (Exr, 7, 2), (Radial, 7, 2),
        (Exr, 7, 4), (Radial, 7, 4)]"
  using snapshot_trials [of "analyzer_of_size 4 4 [7] 5 2 1" origin_sampler "()"]
  by (simp add: upto.simps)

text \<open>
  C7: when the grid is not square, radial reduction returns the exit status \<open>-2\<close> and no
  rows; the snapshot that called it has written its image only, the run is halted with
  that status, and nothing more happens in it.
\<close>

theorem non_square_grid_is_fatal:
  assumes "xRes (self rs) \<noteq> yRes (self rs)"
  shows "compute_radial_mean_powerspectrum (self rs) = Inl (Exit (- 2))
         \<and> halted (snapshot n trial rs) = Some (Exit (- 2))
         \<and> written (snapshot n trial rs)
           = written rs @ [WriteExr n trial
                             (powerSpectrum (mean_power (powerAccum rs) trial (self rs)))]
         \<and> run_sample_counts Sample ns (snapshot n trial rs) = snapshot n trial rs"
  using assms
  by (simp add: snapshot_not_square run_sample_counts_halted
        compute_radial_mean_powerspectrum_def)

theorem non_square_grid_is_fatal_witness:
  "xRes (self (start () (analyzer_of_size 4 2 [1] 1 1 1)))
     \<noteq> yRes (self (start () (analyzer_of_size 4 2 [1] 1 1 1)))
   \<and> compute_radial_mean_powerspectrum (self (start () (analyzer_of_size 4 2 [1] 1 1 1)))
     = Inl (Exit (- 2))
   \<and> halted (snapshot 1 1 (start () (analyzer_of_size 4 2 [1] 1 1 1))) = Some (Exit (- 2))"
  using non_square_grid_is_fatal [of "start () (analyzer_of_size 4 2 [1] 1 1 1)" 1 1 origin_sampler "[]"]
  by simp

text \<open>
  C10: whatever the configuration, the constructor sets the resolution to 512 by 512.
  After any sequence of trials of a run from the constructed analyzer the grid is still
  512 by 512, radial reduction on it does not take the fatal branch, and the run has not
  halted with the exit status of that branch; so it is for the whole analysis.
\<close>

theorem grid_always_square:
  "xRes (FourierAnalyzer ns nt ts ws) = 512 \<and> yRes (FourierAnalyzer ns nt ts ws) = 512
   \<and> (\<forall>steps.
        let rs = fold (\<lambda>(n, trial). run_trial Sample n trial) steps
                   (start s (FourierAnalyzer ns nt ts ws))
        in xRes (self rs) = 512 \<and> yRes (self rs) = 512
           \<and> (\<forall>e. compute_radial_mean_powerspectrum (self rs) \<noteq> Inl e)
           \<and> halted rs \<noteq> Some (Exit (- 2)))
   \<and> xRes (self (RunAnalysis Sample s (FourierAnalyzer ns nt ts ws))) = 512
   \<and> yRes (self (RunAnalysis Sample s (FourierAnalyzer ns nt ts ws))) = 512
   \<and> halted (RunAnalysis Sample s (FourierAnalyzer ns nt ts ws)) \<noteq> Some (Exit (- 2))"
proof -
  let ?A = "FourierAnalyzer ns nt ts ws"
  have inv: "xRes (self (fold (\<lambda>(n, trial). run_trial Sample n trial) steps (start s ?A))) = 512
         \<and> yRes (self (fold (\<lambda>(n, trial). run_trial Sample n trial) steps (start s ?A))) = 512
         \<and> halted (fold (\<lambda>(n, trial). run_trial Sample n trial) steps (start s ?A))
             \<noteq> Some (Exit (- 2))" for steps
    by (rule steps_square) simp_all
  have "\<forall>e. compute_radial_mean_powerspectrum
               (self (fold (\<lambda>(n, trial). run_trial Sample n trial) steps (start s ?A))) \<noteq> Inl e"
    for steps
    using inv [of steps] by (simp add: compute_radial_square)
  then show ?thesis
    using inv by (simp add: RunAnalysis_steps Let_def)
qed

section \<open>A run with two sample counts\<close>

lemma fourier_sum_origin: "fourier_sum (replicate k (Point 0 0)) wx wy = (real k, 0)"
  by (simp add: fourier_sum_eq sum_list_replicate)

lemma trial_spectrum_origin:
  assumes "wf st" and "xRes st = yRes st" and "i < xRes st * yRes st" and "0 < n"
  shows "powerSpectrum (trial_spectrum st (fst (origin_sampler s n))) ! i = Fin (real_of_int n)"
proof -
  let ?ps = "replicate (nat n) (Point 0 0)"
  let ?c = "clear_power (st\<lparr>pts := ?ps\<rparr>)"
  let ?R = "yRes st"
  have R: "0 < ?R" using assms(2,3) by (cases "yRes st") simp_all
  have row: "i div ?R < ?R" using assms(2,3) by (simp add: less_mult_imp_div_less)
  have col: "i mod ?R < ?R" using R by simp
  have len: "length (complexSpectrum ?c) = ?R * ?R" using assms(1,2) by (simp add: wf_def)
  have "complexSpectrum (continuous_fourier_spectrum ?c) ! (i div ?R * ?R + i mod ?R)
        = Complex (real (nat n)) 0"
    using continuous_fourier_spectrum_nth [of ?c ?R, OF _ _ len row col] assms(2)
    by (simp add: fourier_sum_origin)
  then have z: "complexSpectrum (continuous_fourier_spectrum ?c) ! i = Complex (real (nat n)) 0"
    by simp
  have plen: "length (powerSpectrum (continuous_fourier_spectrum ?c))
              = xRes (continuous_fourier_spectrum ?c) * yRes (continuous_fourier_spectrum ?c)"
    using assms(1) by (simp add: wf_def)
  have i: "i < xRes (continuous_fourier_spectrum ?c) * yRes (continuous_fourier_spectrum ?c)"
    using assms(3) by simp
  show ?thesis
    using assms(4) power_fourier_spectrum_nth [OF plen i]
    by (simp add: trial_spectrum_def origin_sampler_def z)
qed

lemma run_trial_first:
  assumes "halted rs = None" and "xRes (self rs) = yRes (self rs)"
  shows "powerAccum (run_trial Sample n 1 rs)
         = accumulate (trial_spectrum (self rs) (fst (Sample (sampler rs) n))) (powerAccum rs)"
    and "self (run_trial Sample n 1 rs)
         = mean_power (powerAccum (run_trial Sample n 1 rs)) 1
             (trial_spectrum (self rs) (fst (Sample (sampler rs) n)))"
    and "written (run_trial Sample n 1 rs)
         = written rs @ [WriteExr n 1 (powerSpectrum (self (run_trial Sample n 1 rs))),
                         WriteRadial n 1
                           (map (\<lambda>i. (i, radial_mean (self (run_trial Sample n 1 rs)) ! i))
                                [0..<xRes (self rs) div 2 - 5])]"
    and "halted (run_trial Sample n 1 rs) = None"
    and "sampler (run_trial Sample n 1 rs) = snd (Sample (sampler rs) n)"
  using assms by (simp_all add: run_trial_unfold Let_def snapshot_square)

lemma single_trial:
  "nTrials (self rs) = 1 \<Longrightarrow> run_trials Sample n rs = run_trial Sample n 1 rs"
  by (simp add: run_trials_def)

lemma two_counts_fields [simp]:
  "wf two_counts" "xRes two_counts = 512" "yRes two_counts = 512"
  "nTrials two_counts = 1" "nSamples two_counts = [1, 2]" "trialStepOut two_counts = 1"
  by (simp_all add: two_counts_def)

lemma after_first_count_eq:
  "after_first_count = run_trial origin_sampler 1 1 (start () two_counts)"
  by (simp add: after_first_count_def run_sample_counts_def single_trial)

lemma after_first_count_fields [simp]:
  "halted after_first_count = None"
  "xRes (self after_first_count) = 512"
  "yRes (self after_first_count) = 512"
  "nTrials (self after_first_count) = 1"
  "length (written after_first_count) = 2"
  "length (powerAccum after_first_count) = 512 * 512"
  "wf (self after_first_count)"
  by (simp_all add: after_first_count_eq run_trial_first)

lemma RunAnalysis_two_counts:
  "RunAnalysis origin_sampler () two_counts = run_trial origin_sampler 2 1 after_first_count"
proof -
  have "RunAnalysis origin_sampler () two_counts = run_trials origin_sampler 2 after_first_count"
    by (simp add: RunAnalysis_def run_sample_counts_def after_first_count_def)
  then show ?thesis by (simp add: single_trial)
qed

lemma after_first_count_accum: "powerAccum after_first_count ! 0 = Fin 1"
proof -
  let ?st = "trial_spectrum two_counts (fst (origin_sampler () 1))"
  have "powerSpectrum ?st ! 0 = Fin (real_of_int 1)"
    by (rule trial_spectrum_origin) simp_all
  moreover have "accumulate ?st (replicate (512 * 512) (Fin 0)) ! 0
                 = fadd (replicate (512 * 512) (Fin 0) ! 0) (powerSpectrum ?st ! 0)"
    by (rule accumulate_nth) simp_all
  ultimately show ?thesis
    by (simp add: after_first_count_eq run_trial_first)
qed

lemma second_count_spectrum:
  "powerSpectrum (trial_spectrum (self after_first_count)
      (fst (origin_sampler () 2))) ! 0 = Fin 2"
  using trial_spectrum_origin [of "self after_first_count" 0 2 "()"]
  by simp

lemma second_count_accum:
  "powerAccum (run_trial origin_sampler 2 1 after_first_count) ! 0 = Fin 3"
proof -
  let ?st = "trial_spectrum (self after_first_count)
               (fst (origin_sampler () 2))"
  have "accumulate ?st (powerAccum after_first_count) ! 0
        = fadd (powerAccum after_first_count ! 0) (powerSpectrum ?st ! 0)"
    by (rule accumulate_nth) simp_all
  then show ?thesis
    by (simp add: run_trial_first after_first_count_accum second_count_spectrum)
qed

lemma second_count_image:
  "written (run_trial origin_sampler 2 1 after_first_count) ! 2
   = WriteExr 2 1 (powerSpectrum (self (run_trial origin_sampler 2 1 after_first_count)))"
  by (simp add: run_trial_first(3) nth_append)

lemma second_count_mean:
  "powerSpectrum (self (run_trial origin_sampler 2 1 after_first_count)) ! 0 = Fin 3"
proof -
  let ?st = "trial_spectrum (self after_first_count)
               (fst (origin_sampler () 2))"
  have "powerSpectrum (mean_power (powerAccum (run_trial origin_sampler 2 1 after_first_count)) 1 ?st) ! 0
        = fdiv_count (powerAccum (run_trial origin_sampler 2 1 after_first_count) ! 0) (nat 1)"
    using after_first_count_fields(7) by (intro mean_power_nth) (simp_all add: wf_def)
  then show ?thesis
    by (simp add: run_trial_first(2) second_count_accum)
qed

text \<open>
  C1 (the code at the failing input): with the sample counts 1 and 2 and one trial each,
  the run reaches the second sample count with the accumulator of the first: the running
  sum at cell 0 is 1 at the start of its first trial, not 0.
\<close>

theorem accumulator_not_reset:
  "RunAnalysis origin_sampler () two_counts = run_trials origin_sampler 2 after_first_count
   \<and> powerAccum after_first_count ! 0 = Fin 1"
  by (simp add: RunAnalysis_two_counts single_trial after_first_count_accum)

text \<open>
  C2 (the code at the failing input): in the same run the only power spectrum observed
  for the sample count 2 has the value 2 at cell 0, and the image written after its
  trial 1 has the value 3 there, the sum over both sample counts divided by 1.
\<close>

theorem mean_over_both_sample_counts:
  "powerSpectrum (trial_spectrum (self after_first_count)
      (fst (origin_sampler () 2))) ! 0 = Fin 2
   \<and> event_key (written (RunAnalysis origin_sampler () two_counts) ! 2) = (Exr, 2, 1)
   \<and> image_of (written (RunAnalysis origin_sampler () two_counts) ! 2) ! 0 = Fin 3"
  by (simp add: RunAnalysis_two_counts second_count_spectrum second_count_image
        second_count_mean)

end
